theory Spec2Isabelle
  imports Main "HOL-Library.Sublist"
begin

section \<open>JavaScript values and the built-ins that derive-path.ts uses\<close>

text \<open>
  The record handed to \<open>derivePath\<close> is typed \<open>Record<string, any>\<close>: a tree of
  JSON-like data. Numbers are modelled by their integer values (the GraphQL ids, counts and
  SKUs the source comment speaks of), in the range where a JavaScript number is exact and
  \<open>String\<close> prints it in plain decimal (magnitude below \<open>2^53\<close>); \<open>NaN\<close>, infinities,
  fractions and larger numbers (printed as \<open>1e+21\<close> and the like) are outside the model.
  An object is the list of its own enumerable properties, in enumeration order; what it
  would inherit from a prototype is not part of the value.
\<close>

datatype jsval =
    JUndefined
  | JNull
  | JBool bool
  | JNum int
  | JStr string
  | JArr "jsval list"
  | JObj "(string \<times> jsval) list"

text \<open>Property access \<open>node.nodes\<close> on an object: a missing property reads as \<open>undefined\<close>.\<close>

definition js_prop :: "(string \<times> jsval) list \<Rightarrow> string \<Rightarrow> jsval" where
  "js_prop fields k = (case map_of fields k of Some v \<Rightarrow> v | None \<Rightarrow> JUndefined)"

text \<open>Truthiness (ToBoolean) and the operator \<open>a || b\<close>.\<close>

fun js_truthy :: "jsval \<Rightarrow> bool" where
  "js_truthy JUndefined = False"
| "js_truthy JNull = False"
| "js_truthy (JBool b) = b"
| "js_truthy (JNum n) = (n \<noteq> 0)"
| "js_truthy (JStr s) = (s \<noteq> [])"
| "js_truthy (JArr xs) = True"
| "js_truthy (JObj fs) = True"

definition js_or :: "jsval \<Rightarrow> jsval \<Rightarrow> jsval" where
  "js_or a b = (if js_truthy a then a else b)"

text \<open>\<open>Array.prototype.join\<close> and \<open>String.prototype.split\<close> with a one-character separator.\<close>

fun js_join :: "string \<Rightarrow> string list \<Rightarrow> string" where
  "js_join sep [] = []"
| "js_join sep [x] = x"
| "js_join sep (x # y # ys) = x @ sep @ js_join sep (y # ys)"

fun js_split :: "char \<Rightarrow> string \<Rightarrow> string list" where
  "js_split sep [] = [[]]"
| "js_split sep (c # cs) =
     (if c = sep then [] # js_split sep cs
      else (case js_split sep cs of
              p # ps \<Rightarrow> (c # p) # ps
            | [] \<Rightarrow> [[c]]))"

text \<open>Decimal digits of a natural number, and \<open>String(v)\<close>.\<close>

definition digit_char :: "nat \<Rightarrow> char" where
  "digit_char d = ''0123456789'' ! (d mod 10)"

fun digits :: "nat \<Rightarrow> string" where
  "digits n = (if n < 10 then [digit_char n] else digits (n div 10) @ [digit_char (n mod 10)])"

declare digits.simps [simp del]

definition int_to_string :: "int \<Rightarrow> string" where
  "int_to_string n = (if n < 0 then CHR ''-'' # digits (nat (- n)) else digits (nat n))"

fun js_String :: "jsval \<Rightarrow> string" where
  "js_String JUndefined = ''undefined''"
| "js_String JNull = ''null''"
| "js_String (JBool b) = (if b then ''true'' else ''false'')"
| "js_String (JNum n) = int_to_string n"
| "js_String (JStr s) = s"
| "js_String (JArr xs) =
     js_join '','' (map (\<lambda>x. if x = JUndefined \<or> x = JNull then [] else js_String x) xs)"
| "js_String (JObj fs) = ''[object Object]''"

text \<open>
  \<open>String.prototype.replace(pattern, replacement)\<close> with a string pattern: only the first
  occurrence is replaced, and the replacement text is expanded by GetSubstitution
  (\<open>$$\<close>, \<open>$&\<close>, \<open>$`\<close>, \<open>$'\<close>; a string pattern has no capture groups, so every other
  \<open>$\<close> stands for itself).
\<close>

fun splitAtFirst :: "string \<Rightarrow> string \<Rightarrow> (string \<times> string) option" where
  "splitAtFirst pat [] = (if pat = [] then Some ([], []) else None)"
| "splitAtFirst pat (c # cs) =
     (if prefix pat (c # cs) then Some ([], drop (length pat) (c # cs))
      else (case splitAtFirst pat cs of
              Some (b, a) \<Rightarrow> Some (c # b, a)
            | None \<Rightarrow> None))"

fun getSubstitution :: "string \<Rightarrow> string \<Rightarrow> string \<Rightarrow> string \<Rightarrow> string" where
  "getSubstitution matched preceding following [] = []"
| "getSubstitution matched preceding following [c] = [c]"
| "getSubstitution matched preceding following (c # d # cs) =
     (if c = CHR ''$'' \<and> d = CHR ''$'' then CHR ''$'' # getSubstitution matched preceding following cs
      else if c = CHR ''$'' \<and> d = CHR ''&'' then matched @ getSubstitution matched preceding following cs
      else if c = CHR ''$'' \<and> d = CHR 0x60 then preceding @ getSubstitution matched preceding following cs
      else if c = CHR ''$'' \<and> d = CHR 0x27 then following @ getSubstitution matched preceding following cs
      else c # getSubstitution matched preceding following (d # cs))"

definition js_replace :: "string \<Rightarrow> string \<Rightarrow> string \<Rightarrow> string" where
  "js_replace s pat replacement =
     (case splitAtFirst pat s of
        None \<Rightarrow> s
      | Some (preceding, following) \<Rightarrow> preceding @ getSubstitution pat preceding following replacement @ following)"

text \<open>
  \<open>JSON.stringify(value, null, 4)\<close>: \<open>None\<close> is the \<open>undefined\<close> that the serialiser
  yields for an \<open>undefined\<close> value (such a property is left out of an object and printed as
  \<open>null\<close> inside an array).
\<close>

definition hex_char :: "nat \<Rightarrow> char" where
  "hex_char d = ''0123456789abcdef'' ! (d mod 16)"

definition json_quote_char :: "char \<Rightarrow> string" where
  "json_quote_char c =
     (if c = CHR 0x22 then [CHR 0x5C, CHR 0x22]
      else if c = CHR 0x5C then [CHR 0x5C, CHR 0x5C]
      else if c = CHR 0x08 then [CHR 0x5C, CHR ''b'']
      else if c = CHR 0x09 then [CHR 0x5C, CHR ''t'']
      else if c = CHR 0x0A then [CHR 0x5C, CHR ''n'']
      else if c = CHR 0x0C then [CHR 0x5C, CHR ''f'']
      else if c = CHR 0x0D then [CHR 0x5C, CHR ''r'']
      else if (of_char c :: nat) < 32
        then [CHR 0x5C, CHR ''u'', CHR ''0'', CHR ''0'',
              hex_char (of_char c div 16), hex_char (of_char c mod 16)]
      else [c])"

definition json_quote :: "string \<Rightarrow> string" where
  "json_quote s = [CHR 0x22] @ concat (map json_quote_char s) @ [CHR 0x22]"

fun json_property :: "string \<Rightarrow> jsval \<Rightarrow> string option" where
  "json_property ind JUndefined = None"
| "json_property ind JNull = Some ''null''"
| "json_property ind (JBool b) = Some (if b then ''true'' else ''false'')"
| "json_property ind (JNum n) = Some (int_to_string n)"
| "json_property ind (JStr s) = Some (json_quote s)"
| "json_property ind (JArr xs) =
     Some (if xs = [] then ''[]''
           else ''['' @ [CHR 0x0A] @ (ind @ ''    '')
             @ js_join ('','' @ [CHR 0x0A] @ (ind @ ''    ''))
                 (map (\<lambda>x. case json_property (ind @ ''    '') x of
                              None \<Rightarrow> ''null''
                            | Some s \<Rightarrow> s) xs)
             @ [CHR 0x0A] @ ind @ '']'')"
| "json_property ind (JObj fs) =
     Some (let partial = concat (map (\<lambda>kv. case json_property (ind @ ''    '') (snd kv) of
                                            None \<Rightarrow> []
                                          | Some s \<Rightarrow> [json_quote (fst kv) @ '': '' @ s]) fs)
           in if partial = [] then ''{}''
              else ''{'' @ [CHR 0x0A] @ (ind @ ''    '')
                @ js_join ('','' @ [CHR 0x0A] @ (ind @ ''    '')) partial
                @ [CHR 0x0A] @ ind @ ''}'')"

definition JSON_stringify :: "jsval \<Rightarrow> string" where
  "JSON_stringify v = (case json_property [] v of Some s \<Rightarrow> s | None \<Rightarrow> ''undefined'')"

section \<open>Library functions: lodash \<open>get\<close> and slugify\<close>

text \<open>
  \<open>_.get(object, path)\<close> of lodash on the values above. The path string is a single key when
  \<open>isKey\<close> says so, and is otherwise cut by \<open>stringToPath\<close> (the regular expression
  \<open>rePropName\<close>); \<open>baseGet\<close> then walks the keys and stops at \<open>null\<close> or \<open>undefined\<close>.
  The model reads own properties only. In JavaScript \<open>object[key]\<close> also finds what the
  object inherits (\<open>constructor\<close>, \<open>toString\<close> and the other members of the prototypes,
  whose values are functions): a key that names an inherited member is outside the model,
  and no theorem below evaluates the lookup at such a key. The quoted form \<open>["key"]\<close> of
  a bracket key is not modelled either.
\<close>

definition isDigit :: "char \<Rightarrow> bool" where
  "isDigit c = (c \<in> set ''0123456789'')"

definition isWordChar :: "char \<Rightarrow> bool" where
  "isWordChar c =
     (c \<in> set ''abcdefghijklmnopqrstuvwxyzABCDEFGHIJKLMNOPQRSTUVWXYZ0123456789_'')"

definition pathChar :: "char \<Rightarrow> bool" where
  "pathChar c = (c \<noteq> CHR ''.'' \<and> c \<noteq> CHR ''['' \<and> c \<noteq> CHR '']'')"

definition notBracket :: "char \<Rightarrow> bool" where
  "notBracket c = (c \<noteq> CHR ''['' \<and> c \<noteq> CHR '']'')"

text \<open>\<open>reIsPlainProp = /^\w*$/\<close> and \<open>reIsDeepProp = /\.|\[[^[\]]*\]/\<close>.\<close>

definition isPlainProp :: "string \<Rightarrow> bool" where
  "isPlainProp s = list_all isWordChar s"

fun hasBracketGroup :: "string \<Rightarrow> bool" where
  "hasBracketGroup [] = False"
| "hasBracketGroup (c # cs) =
     ((c = CHR ''['' \<and> (case dropWhile notBracket cs of
                            d # r \<Rightarrow> d = CHR '']''
                          | [] \<Rightarrow> False))
      \<or> hasBracketGroup cs)"

definition isDeepProp :: "string \<Rightarrow> bool" where
  "isDeepProp s = (CHR ''.'' \<in> set s \<or> hasBracketGroup s)"

text \<open>
  \<open>value in Object(object)\<close> is consulted only for a path that is not plain and is deep, so
  the path holds a dot or a bracket and can name neither an index nor \<open>length\<close>: it is a key
  of the object only when the object has that own property.
\<close>

definition hasOwnKey :: "jsval \<Rightarrow> string \<Rightarrow> bool" where
  "hasOwnKey obj k = (case obj of JObj fs \<Rightarrow> map_of fs k \<noteq> None | _ \<Rightarrow> False)"

definition isKey :: "string \<Rightarrow> jsval \<Rightarrow> bool" where
  "isKey path obj = (isPlainProp path \<or> \<not> isDeepProp path \<or> hasOwnKey obj path)"

text \<open>The number of a bracket key: \<open>-?\d+(?:\.\d+)?\<close>.\<close>

definition isNumberText :: "string \<Rightarrow> bool" where
  "isNumberText b =
     (let u = (if prefix ''-'' b then tl b else b);
          ip = takeWhile isDigit u;
          r = dropWhile isDigit u
      in ip \<noteq> [] \<and> (r = [] \<or> (hd r = CHR ''.'' \<and> tl r \<noteq> [] \<and> list_all isDigit (tl r))))"

definition bracketNumber :: "string \<Rightarrow> (string \<times> string) option" where
  "bracketNumber s =
     (let body = takeWhile (\<lambda>x. x \<noteq> CHR '']'') s;
          rest = dropWhile (\<lambda>x. x \<noteq> CHR '']'') s
      in if rest \<noteq> [] \<and> isNumberText body then Some (body, tl rest) else None)"

text \<open>The empty alternative \<open>(?=(?:\.|\[\])(?:\.|\[\]|$))\<close> of \<open>rePropName\<close>.\<close>

definition emptyKeyAhead :: "string \<Rightarrow> bool" where
  "emptyKeyAhead s =
     (let t = (if prefix ''.'' s then Some (drop 1 s)
               else if prefix ''[]'' s then Some (drop 2 s)
               else None)
      in case t of
           None \<Rightarrow> False
         | Some u \<Rightarrow> u = [] \<or> prefix ''.'' u \<or> prefix ''[]'' u)"

function rePropName_matches :: "string \<Rightarrow> string list" where
  "rePropName_matches [] = []"
| "rePropName_matches (c # cs) =
     (if pathChar c
        then (c # takeWhile pathChar cs) # rePropName_matches (dropWhile pathChar cs)
      else if c = CHR ''['' \<and> bracketNumber cs \<noteq> None
        then fst (the (bracketNumber cs)) # rePropName_matches (tl (dropWhile (\<lambda>x. x \<noteq> CHR '']'') cs))
      else if emptyKeyAhead (c # cs)
        then [] # rePropName_matches cs
      else rePropName_matches cs)"
  by pat_completeness auto
termination
proof (relation "measure length")
  show "wf (measure length)" by simp
next
  fix c :: char and cs :: string
  have "length (dropWhile pathChar cs) \<le> length cs"
    by (rule length_dropWhile_le)
  then show "(dropWhile pathChar cs, c # cs) \<in> measure length" by simp
next
  fix c :: char and cs :: string
  have "length (dropWhile (\<lambda>x. x \<noteq> CHR '']'') cs) \<le> length cs"
    by (rule length_dropWhile_le)
  then show "(tl (dropWhile (\<lambda>x. x \<noteq> CHR '']'') cs), c # cs) \<in> measure length"
    by simp
next
  fix c :: char and cs :: string
  show "(cs, c # cs) \<in> measure length" by simp
next
  fix c :: char and cs :: string
  show "(cs, c # cs) \<in> measure length" by simp
qed

definition stringToPath :: "string \<Rightarrow> string list" where
  "stringToPath s = (if prefix ''.'' s then [[]] else []) @ rePropName_matches s"

definition castPath :: "string \<Rightarrow> jsval \<Rightarrow> string list" where
  "castPath path obj = (if isKey path obj then [path] else stringToPath path)"

text \<open>
  \<open>object[key]\<close> on a value that is neither \<open>null\<close> nor \<open>undefined\<close>: an own property of
  an object, an element or the length of an array or of a string.
\<close>

definition digit_value :: "char \<Rightarrow> nat" where
  "digit_value c = of_char c - 48"

definition canonicalIndex :: "string \<Rightarrow> nat option" where
  "canonicalIndex k =
     (if k \<noteq> [] \<and> list_all isDigit k \<and> (k = ''0'' \<or> hd k \<noteq> CHR ''0'')
      then Some (foldl (\<lambda>a c. 10 * a + digit_value c) 0 k)
      else None)"

fun js_member :: "jsval \<Rightarrow> string \<Rightarrow> jsval" where
  "js_member (JObj fs) k = js_prop fs k"
| "js_member (JArr xs) k =
     (if k = ''length'' then JNum (int (length xs))
      else (case canonicalIndex k of
              Some i \<Rightarrow> (if i < length xs then xs ! i else JUndefined)
            | None \<Rightarrow> JUndefined))"
| "js_member (JStr s) k =
     (if k = ''length'' then JNum (int (length s))
      else (case canonicalIndex k of
              Some i \<Rightarrow> (if i < length s then JStr [s ! i] else JUndefined)
            | None \<Rightarrow> JUndefined))"
| "js_member v k = JUndefined"

fun walkPath :: "jsval \<Rightarrow> string list \<Rightarrow> jsval" where
  "walkPath obj [] = obj"
| "walkPath obj (k # ks) =
     (if obj = JUndefined \<or> obj = JNull then JUndefined else walkPath (js_member obj k) ks)"

definition baseGet :: "jsval \<Rightarrow> string \<Rightarrow> jsval" where
  "baseGet obj path =
     (let keys = castPath path obj in if keys = [] then JUndefined else walkPath obj keys)"

definition lodash_get :: "jsval \<Rightarrow> string \<Rightarrow> jsval" where
  "lodash_get obj path = (if obj = JUndefined \<or> obj = JNull then JUndefined else baseGet obj path)"

text \<open>
  Modelled from the spec: the slug algorithm is the library \<open>@sindresorhus/slugify\<close>, whose
  code is not in the repository. The spec names what it does: lower-casing,
  whitespace-to-hyphen, diacritic stripping, punctuation removal. The model works on ASCII
  text: letters become lower-case, each whitespace character becomes a hyphen, and every
  other character that is not a letter, a digit or a hyphen is removed.
\<close>

definition toLower :: "char \<Rightarrow> char" where
  "toLower c =
     (case map_of (zip ''ABCDEFGHIJKLMNOPQRSTUVWXYZ'' ''abcdefghijklmnopqrstuvwxyz'') c of
        Some l \<Rightarrow> l
      | None \<Rightarrow> c)"

definition isSpace :: "char \<Rightarrow> bool" where
  "isSpace c = (c \<in> set [CHR '' '', CHR 0x09, CHR 0x0A, CHR 0x0B, CHR 0x0C, CHR 0x0D])"

definition slugChar :: "char \<Rightarrow> bool" where
  "slugChar c = (c \<in> set ''abcdefghijklmnopqrstuvwxyz0123456789-'')"

definition slugify_model :: "string \<Rightarrow> string" where
  "slugify_model s = filter slugChar (map (\<lambda>c. if isSpace c then CHR ''-'' else toLower c) s)"

section \<open>The helpers of \<open>./path-utils\<close>\<close>

text \<open>
  \<open>derive-path.ts\<close> imports five helpers from \<open>./path-utils\<close>, a module of the repository
  whose code is not among the sources, and two libraries (\<open>_.get\<close> of lodash and
  \<open>slugify\<close>). The embedding of \<open>derivePath\<close> takes all seven as a parameter, so that
  what is proved of \<open>derivePath\<close> for every \<open>env\<close> holds whatever they compute;
  \<open>model_env\<close> below is the instance on which the examples are evaluated.
\<close>

record env =
  compose :: "(string \<Rightarrow> string) \<Rightarrow> (string \<Rightarrow> string) \<Rightarrow> string \<Rightarrow> string"
  removeFileExtension :: "string \<Rightarrow> string"
  extractFieldWithoutUnion :: "string \<Rightarrow> string"
  extractAllCollectionSegments :: "string \<Rightarrow> string list"
  switchToPeriodDelimiters :: "string \<Rightarrow> string"
  get :: "jsval \<Rightarrow> string \<Rightarrow> jsval"
  slugify :: "string \<Rightarrow> string"

text \<open>
  Modelled from the spec: \<open>removeFileExtension\<close> of \<open>./path-utils\<close> is missing. The spec:
  the file-extension suffix (a dot followed by alphanumeric characters at the end of the
  final path component) is stripped.
\<close>

definition isAlnum :: "char \<Rightarrow> bool" where
  "isAlnum c =
     (c \<in> set ''abcdefghijklmnopqrstuvwxyzABCDEFGHIJKLMNOPQRSTUVWXYZ0123456789'')"

definition removeFileExtension_model :: "string \<Rightarrow> string" where
  "removeFileExtension_model path =
     (let ext = takeWhile isAlnum (rev path);
          rest = dropWhile isAlnum (rev path)
      in if ext \<noteq> [] \<and> prefix ''.'' rest then rev (tl rest) else path)"

text \<open>
  Modelled from the spec: \<open>extractAllCollectionSegments\<close> of \<open>./path-utils\<close> is missing. The
  spec: it scans for non-overlapping, non-nested bracketed regions; each matched region
  (including its delimiters) is one segment's raw text; no segment found gives the empty
  list. The delimiters are the curly braces of the documentation
  (\<open>products/{Product.name}.js\<close>). The spec makes a template with unbalanced or nested
  delimiters a structural error at analysis time, before any record is processed;
  \<open>derivePath\<close> has no branch for it, and the scan below is the analysis of a well-formed
  template: on a malformed one it returns the innermost brace pairs it finds, and no
  example below uses one.
\<close>

definition notBrace :: "char \<Rightarrow> bool" where
  "notBrace c = (c \<noteq> CHR ''{'' \<and> c \<noteq> CHR ''}'')"

function extractAllCollectionSegments_model :: "string \<Rightarrow> string list" where
  "extractAllCollectionSegments_model [] = []"
| "extractAllCollectionSegments_model (c # cs) =
     (if c = CHR ''{'' \<and> prefix ''}'' (dropWhile notBrace cs)
        then (c # takeWhile notBrace cs @ ''}'')
               # extractAllCollectionSegments_model (tl (dropWhile notBrace cs))
      else extractAllCollectionSegments_model cs)"
  by pat_completeness auto
termination
proof (relation "measure length")
  show "wf (measure length)" by simp
next
  fix c :: char and cs :: string
  have "length (dropWhile notBrace cs) \<le> length cs"
    by (rule length_dropWhile_le)
  then show "(tl (dropWhile notBrace cs), c # cs) \<in> measure length" by simp
next
  fix c :: char and cs :: string
  show "(cs, c # cs) \<in> measure length" by simp
qed

text \<open>
  Modelled from the spec: \<open>extractFieldWithoutUnion\<close> of \<open>./path-utils\<close> is missing. The
  spec: the field path is read from the segment's raw text with its delimiters removed; the
  name before the first dot is the model (\<open>Field.a__b__c\<close> has the path \<open>a.b.c\<close>); a path
  component wrapped in parentheses is the union marker and is removed from the field path
  used for value lookup. The components are still separated by double underscores here.
\<close>

fun splitDunder :: "string \<Rightarrow> string list" where
  "splitDunder [] = [[]]"
| "splitDunder [c] = [[c]]"
| "splitDunder (c # d # cs) =
     (if c = CHR ''_'' \<and> d = CHR ''_'' then [] # splitDunder cs
      else (case splitDunder (d # cs) of
              p # ps \<Rightarrow> (c # p) # ps
            | [] \<Rightarrow> [[c]]))"

definition isUnionMarker :: "string \<Rightarrow> bool" where
  "isUnionMarker p = (2 \<le> length p \<and> hd p = CHR ''('' \<and> last p = CHR '')'')"

definition stripDelimiters :: "string \<Rightarrow> string" where
  "stripDelimiters s =
     (let s1 = (if prefix ''{'' s then tl s else s)
      in if suffix ''}'' s1 then butlast s1 else s1)"

definition dropModel :: "string \<Rightarrow> string" where
  "dropModel s = (if CHR ''.'' \<in> set s then tl (dropWhile (\<lambda>c. c \<noteq> CHR ''.'') s) else s)"

definition extractFieldWithoutUnion_model :: "string \<Rightarrow> string" where
  "extractFieldWithoutUnion_model slugPart =
     js_join ''__''
       (filter (\<lambda>p. \<not> isUnionMarker p) (splitDunder (dropModel (stripDelimiters slugPart))))"

text \<open>
  Modelled from the spec: \<open>switchToPeriodDelimiters\<close> of \<open>./path-utils\<close> is missing. The
  spec: a double-underscore token is a path separator and is rewritten to a single dot.
\<close>

fun switchToPeriodDelimiters_model :: "string \<Rightarrow> string" where
  "switchToPeriodDelimiters_model [] = []"
| "switchToPeriodDelimiters_model [c] = [c]"
| "switchToPeriodDelimiters_model (c # d # cs) =
     (if c = CHR ''_'' \<and> d = CHR ''_'' then CHR ''.'' # switchToPeriodDelimiters_model cs
      else c # switchToPeriodDelimiters_model (d # cs))"

text \<open>
  Modelled from the spec: \<open>compose\<close> of \<open>./path-utils\<close> is missing. The source comment at its
  call (3.a: this transforms \<open>foo__bar\<close> into \<open>foo.bar\<close>) and the spec (the marker is
  stripped and the double underscores become dots) fix what the composition yields; the
  first function is applied first.
\<close>

definition compose_model :: "(string \<Rightarrow> string) \<Rightarrow> (string \<Rightarrow> string) \<Rightarrow> string \<Rightarrow> string" where
  "compose_model f g x = g (f x)"

definition model_env :: env where
  "model_env =
     \<lparr> compose = compose_model,
       removeFileExtension = removeFileExtension_model,
       extractFieldWithoutUnion = extractFieldWithoutUnion_model,
       extractAllCollectionSegments = extractAllCollectionSegments_model,
       switchToPeriodDelimiters = switchToPeriodDelimiters_model,
       get = lodash_get,
       slugify = slugify_model \<rparr>"

section \<open>derive-path.ts\<close>

text \<open>
  The reporter is an object that receives calls; its state is the list of the calls made so
  far, oldest first.
\<close>

datatype reporter_call = ReporterError string | ReporterLog string

type_synonym reporter = "reporter_call list"

text \<open>
  \<open>const doubleForwardSlashes = /\/\/+/g\<close> and \<open>s.replace(doubleForwardSlashes, `/`)\<close>:
  every maximal run of two or more slashes becomes one slash.
\<close>

function replace_doubleForwardSlashes :: "string \<Rightarrow> string" where
  "replace_doubleForwardSlashes [] = []"
| "replace_doubleForwardSlashes [c] = [c]"
| "replace_doubleForwardSlashes (c # d # cs) =
     (if c = CHR ''/'' \<and> d = CHR ''/''
        then CHR ''/'' # replace_doubleForwardSlashes (dropWhile (\<lambda>x. x = CHR ''/'') cs)
      else c # replace_doubleForwardSlashes (d # cs))"
  by pat_completeness auto
termination
proof (relation "measure length")
  show "wf (measure length)" by simp
next
  fix c d :: char and cs :: string
  have "length (dropWhile (\<lambda>x. x = CHR ''/'') cs) \<le> length cs"
    by (rule length_dropWhile_le)
  then show "(dropWhile (\<lambda>x. x = CHR ''/'') cs, c # d # cs) \<in> measure length" by simp
next
  fix c d :: char and cs :: string
  show "(d # cs, c # d # cs) \<in> measure length" by simp
qed

text \<open>\<open>safeSlugify\<close>: lines 65 to 71.\<close>

definition safeSlugify :: "env \<Rightarrow> jsval \<Rightarrow> string" where
  "safeSlugify e nodeValue =
     (let input = js_String nodeValue;
          tempArr = js_split CHR ''/'' input
      in js_join ''/'' (map (\<lambda>v. slugify e v) tempArr))"

text \<open>
  The body of \<open>slugParts.forEach\<close>, lines 30 to 54. The state threaded through the loop is
  the variable \<open>pathWithoutExtension\<close> and the reporter. \<open>slugPartKey\<close> is step 3.a,
  \<open>slugPartValue\<close> is the \<open>nodeValue\<close> of step 3.b.
\<close>

definition slugPartKey :: "env \<Rightarrow> string \<Rightarrow> string" where
  "slugPartKey e slugPart =
     compose e (extractFieldWithoutUnion e) (switchToPeriodDelimiters e) slugPart"

definition slugPartValue :: "env \<Rightarrow> (string \<times> jsval) list \<Rightarrow> string \<Rightarrow> jsval" where
  "slugPartValue e node slugPart =
     js_or (get e (js_prop node ''nodes'') (''[0]'' @ slugPartKey e slugPart))
           (get e (JObj node) (slugPartKey e slugPart))"

definition errorMessage :: "string \<Rightarrow> string \<Rightarrow> string" where
  "errorMessage slugPart key =
     ''PageCreator: Could not find value in the following node for key '' @ slugPart
       @ '' (transformed to '' @ key @ '')''"

definition forEachSlugPart ::
  "env \<Rightarrow> (string \<times> jsval) list \<Rightarrow> string \<times> reporter \<Rightarrow> string \<Rightarrow> string \<times> reporter" where
  "forEachSlugPart e node st slugPart =
     (let key = slugPartKey e slugPart;
          nodeValue = slugPartValue e node slugPart
      in if nodeValue = JUndefined
         then (fst st,
               snd st @ [ReporterError (errorMessage slugPart key),
                         ReporterLog (JSON_stringify (JObj node))])
         else (js_replace (fst st) slugPart (safeSlugify e nodeValue), snd st))"

definition derivePath ::
  "env \<Rightarrow> string \<Rightarrow> (string \<times> jsval) list \<Rightarrow> reporter \<Rightarrow> string \<times> reporter" where
  "derivePath e path node reporter =
     (let pathWithoutExtension = removeFileExtension e path;
          slugParts = extractAllCollectionSegments e path;
          st = foldl (forEachSlugPart e node) (pathWithoutExtension, reporter) slugParts;
          derivedPath = replace_doubleForwardSlashes (fst st)
      in (derivedPath, snd st))"

text \<open>
  The shape the spec's data model gives a segment: a contiguous piece of text delimited by
  a matched pair of braces, with no brace in between (segments do not nest).
\<close>

definition wellFormedSegment :: "string \<Rightarrow> bool" where
  "wellFormedSegment s =
     (2 \<le> length s \<and> hd s = CHR ''{'' \<and> last s = CHR ''}'' \<and> list_all notBrace (butlast (tl s)))"

text \<open>
  The final pass in the words of the spec: any run of two or more consecutive slashes is
  collapsed into a single slash. Read from left to right, a slash that is followed by
  another slash is dropped, so of every run exactly its last slash stays, and every other
  character stays where it is. This definition is the specification that step 4 of
  \<open>derivePath\<close> is compared with.
\<close>

fun collapseSlashRuns :: "string \<Rightarrow> string" where
  "collapseSlashRuns [] = []"
| "collapseSlashRuns (c # cs) =
     (if c = CHR ''/'' \<and> prefix ''/'' cs then collapseSlashRuns cs
      else c # collapseSlashRuns cs)"

section \<open>Collapsing slashes\<close>

lemma rdfs_Nil_iff: "replace_doubleForwardSlashes s = [] \<longleftrightarrow> s = []"
  by (induction s rule: replace_doubleForwardSlashes.induct) auto

lemma rdfs_hd: "s \<noteq> [] \<Longrightarrow> hd (replace_doubleForwardSlashes s) = hd s"
  by (induction s rule: replace_doubleForwardSlashes.induct) auto

lemma sublist_dslash_Cons:
  "sublist ''//'' (c # s) \<longleftrightarrow> (c = CHR ''/'' \<and> prefix ''/'' s) \<or> sublist ''//'' s"
  by (cases s) (auto simp: sublist_Cons_right)

lemma dropWhile_slash_no_prefix: "\<not> prefix ''/'' (dropWhile (\<lambda>x. x = CHR ''/'') cs)"
  by (induction cs) auto

lemma prefix_slash_rdfs: "prefix ''/'' (replace_doubleForwardSlashes s) \<longleftrightarrow> prefix ''/'' s"
proof (cases s)
  case Nil
  then show ?thesis by simp
next
  case (Cons c cs)
  then have "hd (replace_doubleForwardSlashes s) = c" "replace_doubleForwardSlashes s \<noteq> []"
    using rdfs_hd [of s] rdfs_Nil_iff [of s] by auto
  then show ?thesis using Cons by (cases "replace_doubleForwardSlashes s") auto
qed

lemma rdfs_no_double: "\<not> sublist ''//'' (replace_doubleForwardSlashes s)"
proof (induction s rule: replace_doubleForwardSlashes.induct)
  case 1
  then show ?case by simp
next
  case (2 c)
  then show ?case by (simp add: sublist_dslash_Cons)
next
  case (3 c d cs)
  show ?case
  proof (cases "c = CHR ''/'' \<and> d = CHR ''/''")
    case True
    with 3 show ?thesis
      by (simp add: sublist_dslash_Cons prefix_slash_rdfs dropWhile_slash_no_prefix)
  next
    case False
    with 3 have ih: "\<not> sublist ''//'' (replace_doubleForwardSlashes (d # cs))" by simp
    have "prefix ''/'' (replace_doubleForwardSlashes (d # cs)) \<longleftrightarrow> d = CHR ''/''"
      by (auto simp: prefix_slash_rdfs)
    with False ih show ?thesis
      by (auto simp: sublist_dslash_Cons)
  qed
qed

lemma rdfs_id: "\<not> sublist ''//'' s \<Longrightarrow> replace_doubleForwardSlashes s = s"
  by (induction s rule: replace_doubleForwardSlashes.induct)
     (auto simp: sublist_dslash_Cons)

section \<open>The loop over the segments\<close>

lemma fst_foldl_forEachSlugPart:
  "fst (foldl (forEachSlugPart e node) st slugParts)
   = foldl (\<lambda>p slugPart.
        if slugPartValue e node slugPart = JUndefined then p
        else js_replace p slugPart (safeSlugify e (slugPartValue e node slugPart)))
      (fst st) slugParts"
  by (induction slugParts arbitrary: st) (simp_all add: forEachSlugPart_def Let_def)

lemma snd_foldl_forEachSlugPart:
  "snd (foldl (forEachSlugPart e node) st slugParts)
   = snd st @ concat (map (\<lambda>slugPart.
        if slugPartValue e node slugPart = JUndefined
        then [ReporterError (errorMessage slugPart (slugPartKey e slugPart)),
              ReporterLog (JSON_stringify (JObj node))]
        else []) slugParts)"
  by (induction slugParts arbitrary: st) (simp_all add: forEachSlugPart_def Let_def)

section \<open>Well-formed segments survive the substitution of other segments\<close>

lemma wellFormedSegment_shape:
  assumes "wellFormedSegment s"
  obtains m where "s = CHR ''{'' # m @ ''}''" "CHR ''{'' \<notin> set m" "CHR ''}'' \<notin> set m"
proof -
  from assms have len: "2 \<le> length s" and h: "hd s = CHR ''{''" and l: "last s = CHR ''}''"
    and nb: "list_all notBrace (butlast (tl s))"
    by (simp_all add: wellFormedSegment_def)
  from len obtain c r where s: "s = c # r" and r: "r \<noteq> []"
    by (cases s) (auto simp: Suc_le_eq)
  from r have r': "r = butlast r @ [last r]" by simp
  from s h have c: "c = CHR ''{''" by simp
  from s r l have lr: "last r = CHR ''}''" by simp
  have "s = CHR ''{'' # butlast r @ ''}''"
    using s c r' lr by simp
  moreover have "CHR ''{'' \<notin> set (butlast r)" "CHR ''}'' \<notin> set (butlast r)"
    using nb s by (auto simp: list_all_iff notBrace_def)
  ultimately show thesis using that by blast
qed

lemma append_Cons_same_prefix:
  "x \<notin> set xs \<Longrightarrow> x \<notin> set zs \<Longrightarrow> xs @ x # ys = zs @ x # ws \<Longrightarrow> xs = zs"
proof (induction xs arbitrary: zs)
  case Nil
  then show ?case by (cases zs) auto
next
  case (Cons a xs)
  then show ?case by (cases zs) auto
qed

lemma wellFormedSegment_same_start:
  assumes "wellFormedSegment s" "wellFormedSegment t" "s @ y = t @ a"
  shows "s = t"
proof -
  from assms(1) obtain ms where s: "s = CHR ''{'' # ms @ ''}''" and ms: "CHR ''}'' \<notin> set ms"
    by (rule wellFormedSegment_shape)
  from assms(2) obtain mt where t: "t = CHR ''{'' # mt @ ''}''" and mt: "CHR ''}'' \<notin> set mt"
    by (rule wellFormedSegment_shape)
  from assms(3) s t have "ms @ CHR ''}'' # y = mt @ CHR ''}'' # a" by simp
  with ms mt have "ms = mt" by (rule append_Cons_same_prefix)
  with s t show ?thesis by simp
qed

lemma wellFormedSegment_inner_brace:
  assumes "wellFormedSegment s" "s = us @ CHR ''{'' # vs"
  shows "us = []"
proof (cases us)
  case Nil
  then show ?thesis .
next
  case (Cons u us')
  from assms(1) obtain m where s: "s = CHR ''{'' # m @ ''}''" and m: "CHR ''{'' \<notin> set m"
    by (rule wellFormedSegment_shape)
  from s assms(2) Cons have "m @ ''}'' = us' @ CHR ''{'' # vs" by simp
  then have "CHR ''{'' \<in> set (m @ ''}'')" by simp
  with m show ?thesis by simp
qed

lemma wellFormedSegment_no_overlap:
  assumes s: "wellFormedSegment s" and t: "wellFormedSegment t" and ne: "s \<noteq> t"
    and eq: "b @ t @ a = x @ s @ y"
  shows "sublist s b \<or> sublist s a"
proof -
  from s obtain ms where s_shape: "s = CHR ''{'' # ms @ ''}''" by (rule wellFormedSegment_shape)
  from t obtain mt where t_shape: "t = CHR ''{'' # mt @ ''}''" by (rule wellFormedSegment_shape)
  from eq obtain us where
    "(b = x @ us \<and> us @ t @ a = s @ y) \<or> (b @ us = x \<and> t @ a = us @ s @ y)"
    using append_eq_append_conv2 [THEN iffD1, OF eq] by blast
  then show ?thesis
  proof
    assume A: "b = x @ us \<and> us @ t @ a = s @ y"
    then have A': "us @ t @ a = s @ y" by (rule conjunct2)
    obtain vs where
      "(us = s @ vs \<and> vs @ t @ a = y) \<or> (us @ vs = s \<and> t @ a = vs @ y)"
      using append_eq_append_conv2 [THEN iffD1, OF A'] by blast
    then show ?thesis
    proof
      assume "us = s @ vs \<and> vs @ t @ a = y"
      with A have "b = x @ s @ vs" by simp
      then show ?thesis by simp
    next
      assume A2: "us @ vs = s \<and> t @ a = vs @ y"
      show ?thesis
      proof (cases vs)
        case Nil
        with A A2 have "b = x @ s" by simp
        then show ?thesis by simp
      next
        case (Cons v vs')
        with A2 t_shape have v: "v = CHR ''{''" by simp
        from A2 Cons v have "s = us @ CHR ''{'' # vs'" by simp
        with s have "us = []" by (rule wellFormedSegment_inner_brace)
        with A2 have "s @ y = t @ a" by simp
        with s t have "s = t" by (rule wellFormedSegment_same_start)
        with ne show ?thesis by simp
      qed
    qed
  next
    assume B: "b @ us = x \<and> t @ a = us @ s @ y"
    then have B': "t @ a = us @ s @ y" by (rule conjunct2)
    obtain vs where
      "(t = us @ vs \<and> vs @ a = s @ y) \<or> (t @ vs = us \<and> a = vs @ s @ y)"
      using append_eq_append_conv2 [THEN iffD1, OF B'] by blast
    then show ?thesis
    proof
      assume B1: "t = us @ vs \<and> vs @ a = s @ y"
      show ?thesis
      proof (cases vs)
        case Nil
        with B1 have "a = s @ y" by simp
        then show ?thesis by simp
      next
        case (Cons v vs')
        with B1 s_shape have v: "v = CHR ''{''" by simp
        from B1 Cons v have "t = us @ CHR ''{'' # vs'" by simp
        with t have "us = []" by (rule wellFormedSegment_inner_brace)
        with B1 have "s @ y = t @ a" by simp
        with s t have "s = t" by (rule wellFormedSegment_same_start)
        with ne show ?thesis by simp
      qed
    next
      assume "t @ vs = us \<and> a = vs @ s @ y"
      then have "a = vs @ s @ y" by simp
      then show ?thesis by simp
    qed
  qed
qed

lemma splitAtFirst_Some:
  "splitAtFirst pat s = Some (b, a) \<Longrightarrow> s = b @ pat @ a"
proof (induction s arbitrary: b)
  case Nil
  then show ?case by (simp split: if_splits)
next
  case (Cons c cs)
  show ?case
  proof (cases "prefix pat (c # cs)")
    case True
    then obtain zs where zs: "c # cs = pat @ zs" by (auto simp: prefix_def)
    from True Cons.prems have "b = []" "a = drop (length pat) (c # cs)" by simp_all
    with zs show ?thesis by simp
  next
    case False
    with Cons.prems obtain b' where "splitAtFirst pat cs = Some (b', a)" "b = c # b'"
      by (auto split: option.splits)
    with Cons.IH [of b'] show ?thesis by simp
  qed
qed

lemma js_replace_keeps_segment:
  assumes "wellFormedSegment s" "wellFormedSegment t" "s \<noteq> t" "sublist s p"
  shows "sublist s (js_replace p t v)"
proof (cases "splitAtFirst t p")
  case None
  with assms(4) show ?thesis by (simp add: js_replace_def)
next
  case (Some ba)
  obtain b a where ba: "ba = (b, a)" by (cases ba)
  with Some have p: "p = b @ t @ a" by (simp add: splitAtFirst_Some)
  from assms(4) obtain x y where "p = x @ s @ y" by (auto simp: sublist_def)
  with p have "b @ t @ a = x @ s @ y" by simp
  with assms(1-3) have "sublist s b \<or> sublist s a" by (rule wellFormedSegment_no_overlap)
  then have "sublist s (b @ getSubstitution t b a v @ a)"
    by (auto simp: sublist_append)
  with Some ba show ?thesis by (simp add: js_replace_def)
qed

lemma foldl_keeps_segment:
  assumes "wellFormedSegment s" "slugPartValue e node s = JUndefined"
  shows "\<forall>t \<in> set slugParts. wellFormedSegment t \<Longrightarrow> sublist s p \<Longrightarrow>
    sublist s (foldl (\<lambda>p slugPart.
        if slugPartValue e node slugPart = JUndefined then p
        else js_replace p slugPart (safeSlugify e (slugPartValue e node slugPart)))
      p slugParts)"
proof (induction slugParts arbitrary: p)
  case Nil
  then show ?case by simp
next
  case (Cons t ts)
  show ?case
  proof (cases "slugPartValue e node t = JUndefined")
    case True
    with Cons show ?thesis by simp
  next
    case False
    with assms(2) have "s \<noteq> t" by auto
    with assms(1) Cons.prems
    have "sublist s (js_replace p t (safeSlugify e (slugPartValue e node t)))"
      by (simp add: js_replace_keeps_segment)
    with Cons.IH [of "js_replace p t (safeSlugify e (slugPartValue e node t))"] Cons.prems(1) False
    show ?thesis by simp
  qed
qed

section \<open>The final collapse keeps a well-formed segment\<close>

lemma dropWhile_slash_append:
  "\<not> prefix ''/'' b \<Longrightarrow>
   dropWhile (\<lambda>x. x = CHR ''/'') (cs @ b) = dropWhile (\<lambda>x. x = CHR ''/'') cs @ b"
proof (induction cs)
  case Nil
  then show ?case by (cases b) simp_all
next
  case (Cons c cs)
  then show ?case by simp
qed

lemma rdfs_append_left:
  "\<not> prefix ''/'' b \<Longrightarrow>
   replace_doubleForwardSlashes (a @ b) = replace_doubleForwardSlashes a @ replace_doubleForwardSlashes b"
proof (induction a rule: replace_doubleForwardSlashes.induct)
  case 1
  then show ?case by simp
next
  case (2 c)
  then show ?case by (cases b) simp_all
next
  case (3 c d cs)
  then show ?case by (simp add: dropWhile_slash_append)
qed

lemma dropWhile_slash_last:
  "cs \<noteq> [] \<Longrightarrow> last cs \<noteq> CHR ''/'' \<Longrightarrow>
   dropWhile (\<lambda>x. x = CHR ''/'') cs \<noteq> [] \<and>
   last (dropWhile (\<lambda>x. x = CHR ''/'') cs) = last cs \<and>
   dropWhile (\<lambda>x. x = CHR ''/'') (cs @ b) = dropWhile (\<lambda>x. x = CHR ''/'') cs @ b"
  by (induction cs) (auto split: if_splits)

lemma rdfs_append_right:
  "a \<noteq> [] \<Longrightarrow> last a \<noteq> CHR ''/'' \<Longrightarrow>
   replace_doubleForwardSlashes (a @ b) = replace_doubleForwardSlashes a @ replace_doubleForwardSlashes b"
proof (induction a rule: replace_doubleForwardSlashes.induct)
  case 1
  then show ?case by simp
next
  case (2 c)
  then show ?case by (cases b) simp_all
next
  case (3 c d cs)
  show ?case
  proof (cases "c = CHR ''/'' \<and> d = CHR ''/''")
    case True
    with "3.prems" have cs: "cs \<noteq> []" "last cs \<noteq> CHR ''/''" by (auto split: if_splits)
    from dropWhile_slash_last [OF cs, of b]
    have dw: "dropWhile (\<lambda>x. x = CHR ''/'') cs \<noteq> []"
      "last (dropWhile (\<lambda>x. x = CHR ''/'') cs) = last cs"
      "dropWhile (\<lambda>x. x = CHR ''/'') (cs @ b) = dropWhile (\<lambda>x. x = CHR ''/'') cs @ b"
      by simp_all
    from dw(2) cs(2) have "last (dropWhile (\<lambda>x. x = CHR ''/'') cs) \<noteq> CHR ''/''" by simp
    with "3.IH"(1) [OF True dw(1)]
    have "replace_doubleForwardSlashes (dropWhile (\<lambda>x. x = CHR ''/'') cs @ b)
        = replace_doubleForwardSlashes (dropWhile (\<lambda>x. x = CHR ''/'') cs)
          @ replace_doubleForwardSlashes b" .
    with True dw(3) show ?thesis by simp
  next
    case False
    from "3.prems" have "d # cs \<noteq> []" "last (d # cs) \<noteq> CHR ''/''" by simp_all
    with "3.IH"(2) [OF False]
    have "replace_doubleForwardSlashes ((d # cs) @ b)
        = replace_doubleForwardSlashes (d # cs) @ replace_doubleForwardSlashes b" .
    with False show ?thesis by auto
  qed
qed

lemma rdfs_keeps_segment:
  assumes "wellFormedSegment s" "sublist s p"
  shows "sublist (replace_doubleForwardSlashes s) (replace_doubleForwardSlashes p)"
proof -
  from assms(1) obtain m where s: "s = CHR ''{'' # m @ ''}''" by (rule wellFormedSegment_shape)
  from assms(2) obtain x y where p: "p = x @ s @ y" by (auto simp: sublist_def)
  have "\<not> prefix ''/'' (s @ y)" using s by simp
  then have 1: "replace_doubleForwardSlashes (x @ s @ y)
      = replace_doubleForwardSlashes x @ replace_doubleForwardSlashes (s @ y)"
    by (rule rdfs_append_left)
  have "s \<noteq> []" "last s \<noteq> CHR ''/''" using s by simp_all
  then have 2: "replace_doubleForwardSlashes (s @ y)
      = replace_doubleForwardSlashes s @ replace_doubleForwardSlashes y"
    by (rule rdfs_append_right)
  from p 1 2 show ?thesis by simp
qed

lemma slugPartValue_both_undefined:
  "get e (js_prop node ''nodes'') (''[0]'' @ slugPartKey e slugPart) = JUndefined \<Longrightarrow>
   get e (JObj node) (slugPartKey e slugPart) = JUndefined \<Longrightarrow>
   slugPartValue e node slugPart = JUndefined"
  by (simp add: slugPartValue_def js_or_def)

section \<open>Splitting and joining on a slash\<close>

lemma js_split_not_Nil: "js_split sep s \<noteq> []"
  by (induction s) (auto split: list.splits)

lemma js_split_no_sep: "sep \<notin> set x \<Longrightarrow> js_split sep x = [x]"
  by (induction x) auto

lemma js_split_append_sep:
  "sep \<notin> set x \<Longrightarrow> js_split sep (x @ sep # rest) = x # js_split sep rest"
  by (induction x) auto

lemma js_split_join:
  "ps \<noteq> [] \<Longrightarrow> \<forall>p \<in> set ps. sep \<notin> set p \<Longrightarrow> js_split sep (js_join [sep] ps) = ps"
  by (induction "[sep]" ps rule: js_join.induct)
     (simp_all add: js_split_no_sep js_split_append_sep)

lemma slugify_model_no_slash: "CHR ''/'' \<notin> set (slugify model_env s)"
  by (simp add: model_env_def slugify_model_def slugChar_def)

lemma derivePath_no_slugParts:
  "extractAllCollectionSegments e path = [] \<Longrightarrow>
   derivePath e path node reporter = (replace_doubleForwardSlashes (removeFileExtension e path), reporter)"
  by (simp add: derivePath_def Let_def)

section \<open>The modelled helpers keep the template invariant\<close>

text \<open>
  Every segment that the modelled \<open>extractAllCollectionSegments\<close> finds is well formed and
  lies in the template, and the modelled \<open>removeFileExtension\<close> does not cut into it.
\<close>

lemma extractAllCollectionSegments_model_wellFormed:
  "t \<in> set (extractAllCollectionSegments_model s) \<Longrightarrow> wellFormedSegment t"
proof (induction s rule: extractAllCollectionSegments_model.induct)
  case 1
  then show ?case by simp
next
  case (2 c cs)
  show ?case
  proof (cases "c = CHR ''{'' \<and> prefix ''}'' (dropWhile notBrace cs)")
    case True
    with "2.prems" have "t = c # takeWhile notBrace cs @ ''}''
        \<or> t \<in> set (extractAllCollectionSegments_model (tl (dropWhile notBrace cs)))"
      by simp
    then show ?thesis
    proof
      assume t: "t = c # takeWhile notBrace cs @ ''}''"
      have "list_all notBrace (takeWhile notBrace cs)"
        by (auto simp: list_all_iff dest: set_takeWhileD)
      with t True show ?thesis
        by (simp add: wellFormedSegment_def butlast_append)
    next
      assume "t \<in> set (extractAllCollectionSegments_model (tl (dropWhile notBrace cs)))"
      with "2.IH"(1) [OF True] show ?thesis .
    qed
  next
    case False
    with "2.prems" have "t \<in> set (extractAllCollectionSegments_model cs)" by auto
    with "2.IH"(2) [OF False] show ?thesis .
  qed
qed

lemma extractAllCollectionSegments_model_sublist:
  "t \<in> set (extractAllCollectionSegments_model s) \<Longrightarrow> sublist t s"
proof (induction s rule: extractAllCollectionSegments_model.induct)
  case 1
  then show ?case by simp
next
  case (2 c cs)
  show ?case
  proof (cases "c = CHR ''{'' \<and> prefix ''}'' (dropWhile notBrace cs)")
    case True
    then obtain r where r: "dropWhile notBrace cs = CHR ''}'' # r"
      by (auto simp: prefix_def)
    have cs: "cs = takeWhile notBrace cs @ dropWhile notBrace cs" by simp
    from "2.prems" True have "t = c # takeWhile notBrace cs @ ''}''
        \<or> t \<in> set (extractAllCollectionSegments_model (tl (dropWhile notBrace cs)))"
      by simp
    then show ?thesis
    proof
      assume t: "t = c # takeWhile notBrace cs @ ''}''"
      from cs r have "c # cs = (c # takeWhile notBrace cs @ ''}'') @ r" by simp
      with t have "c # cs = t @ r" by simp
      then show ?thesis by (metis sublist_append_rightI)
    next
      assume "t \<in> set (extractAllCollectionSegments_model (tl (dropWhile notBrace cs)))"
      with "2.IH"(1) [OF True] have "sublist t (tl (dropWhile notBrace cs))" .
      with r have "sublist t r" by simp
      then obtain x y where "r = x @ t @ y" by (auto simp: sublist_def)
      with cs r have "c # cs = (c # takeWhile notBrace cs @ CHR ''}'' # x) @ t @ y" by simp
      then show ?thesis by (metis sublist_appendI)
    qed
  next
    case False
    with "2.prems" have "t \<in> set (extractAllCollectionSegments_model cs)" by auto
    with "2.IH"(2) [OF False] have "sublist t cs" .
    then show ?thesis by (simp add: sublist_Cons_right)
  qed
qed

lemma removeFileExtension_model_keeps_segment:
  assumes "wellFormedSegment t" "sublist t path"
  shows "sublist t (removeFileExtension_model path)"
proof (cases "takeWhile isAlnum (rev path) \<noteq> [] \<and> prefix ''.'' (dropWhile isAlnum (rev path))")
  case False
  with assms(2) show ?thesis by (auto simp: removeFileExtension_model_def Let_def)
next
  case True
  then obtain r where r: "dropWhile isAlnum (rev path) = CHR ''.'' # r"
    by (auto simp: prefix_def)
  define ext where "ext = takeWhile isAlnum (rev path)"
  have "rev path = ext @ CHR ''.'' # r" unfolding ext_def using r by (metis takeWhile_dropWhile_id)
  then have "rev (rev path) = rev (ext @ CHR ''.'' # r)" by (rule arg_cong)
  then have path: "path = rev r @ CHR ''.'' # rev ext" by simp
  have res: "removeFileExtension_model path = rev r"
    using True r by (simp add: removeFileExtension_model_def Let_def)
  have noclose: "CHR ''}'' \<notin> set (CHR ''.'' # rev ext)"
    unfolding ext_def by (auto simp: isAlnum_def dest: set_takeWhileD)
  from assms(1) obtain m where t: "t = CHR ''{'' # m @ ''}''" by (rule wellFormedSegment_shape)
  from assms(2) obtain x y where xy: "path = x @ t @ y" by (auto simp: sublist_def)
  from xy [symmetric] path have "x @ t @ y = rev r @ CHR ''.'' # rev ext" by (rule trans)
  then have eq: "(x @ t) @ y = rev r @ CHR ''.'' # rev ext" by simp
  from append_eq_append_conv2 [THEN iffD1, OF eq]
  obtain us where
    "(x @ t = rev r @ us \<and> us @ y = CHR ''.'' # rev ext) \<or> ((x @ t) @ us = rev r \<and> y = us @ CHR ''.'' # rev ext)"
    by blast
  then have "sublist t (rev r)"
  proof
    assume A: "x @ t = rev r @ us \<and> us @ y = CHR ''.'' # rev ext"
    show ?thesis
    proof (cases "us = []")
      case True
      with A have "rev r = x @ t" by simp
      then show ?thesis by (metis sublist_append_leftI)
    next
      case False
      from A have "last (x @ t) = last (rev r @ us)" by simp
      with False t have "last us = CHR ''}''" by simp
      with False have "CHR ''}'' \<in> set us" by (metis last_in_set)
      moreover from A have "set us \<subseteq> set (CHR ''.'' # rev ext)"
        by (metis set_append Un_upper1)
      ultimately show ?thesis using noclose by blast
    qed
  next
    assume "(x @ t) @ us = rev r \<and> y = us @ CHR ''.'' # rev ext"
    then have "rev r = x @ t @ us" by simp
    then show ?thesis by (metis sublist_appendI)
  qed
  with res show ?thesis by simp
qed

lemma model_env_template_invariant:
  "t \<in> set (extractAllCollectionSegments model_env path) \<Longrightarrow>
   wellFormedSegment t \<and> sublist t (removeFileExtension model_env path)"
  by (simp add: model_env_def extractAllCollectionSegments_model_wellFormed
      extractAllCollectionSegments_model_sublist removeFileExtension_model_keeps_segment)

section \<open>Step 4 against its specification\<close>

lemma collapseSlashRuns_slash:
  "collapseSlashRuns (CHR ''/'' # cs)
   = CHR ''/'' # collapseSlashRuns (dropWhile (\<lambda>x. x = CHR ''/'') cs)"
proof (induction cs)
  case Nil
  then show ?case by simp
next
  case (Cons x cs)
  then show ?case by (cases "x = CHR ''/''") simp_all
qed

lemma rdfs_eq_collapseSlashRuns:
  "replace_doubleForwardSlashes s = collapseSlashRuns s"
proof (induction s rule: replace_doubleForwardSlashes.induct)
  case 1
  then show ?case by simp
next
  case (2 c)
  then show ?case by simp
next
  case (3 c d cs)
  show ?case
  proof (cases "c = CHR ''/'' \<and> d = CHR ''/''")
    case True
    with "3.IH"(1) have "replace_doubleForwardSlashes (c # d # cs)
        = CHR ''/'' # collapseSlashRuns (dropWhile (\<lambda>x. x = CHR ''/'') cs)"
      by simp
    also have "\<dots> = collapseSlashRuns (CHR ''/'' # cs)"
      by (rule collapseSlashRuns_slash [symmetric])
    also have "\<dots> = collapseSlashRuns (c # d # cs)" using True by simp
    finally show ?thesis .
  next
    case False
    with "3.IH"(2) show ?thesis by auto
  qed
qed

lemma rdfs_slash_run:
  "\<not> prefix ''/'' b \<Longrightarrow>
   replace_doubleForwardSlashes (replicate (Suc n) (CHR ''/'') @ b)
   = CHR ''/'' # replace_doubleForwardSlashes b"
  unfolding rdfs_eq_collapseSlashRuns
proof (induction n)
  case 0
  then show ?case by simp
next
  case (Suc n)
  then show ?case by simp
qed

lemma rdfs_run_between:
  assumes "a = [] \<or> last a \<noteq> CHR ''/''" "\<not> prefix ''/'' b"
  shows "replace_doubleForwardSlashes (a @ replicate (Suc n) (CHR ''/'') @ b)
    = replace_doubleForwardSlashes a @ ''/'' @ replace_doubleForwardSlashes b"
proof -
  from assms(2) have run: "replace_doubleForwardSlashes (replicate (Suc n) (CHR ''/'') @ b)
      = CHR ''/'' # replace_doubleForwardSlashes b"
    by (rule rdfs_slash_run)
  show ?thesis
  proof (cases "a = []")
    case True
    with run show ?thesis by simp
  next
    case False
    with assms(1) have "last a \<noteq> CHR ''/''" by simp
    with False have "replace_doubleForwardSlashes (a @ replicate (Suc n) (CHR ''/'') @ b)
        = replace_doubleForwardSlashes a @ replace_doubleForwardSlashes (replicate (Suc n) (CHR ''/'') @ b)"
      by (rule rdfs_append_right)
    with run show ?thesis by simp
  qed
qed

lemma rdfs_no_slash: "CHR ''/'' \<notin> set s \<Longrightarrow> replace_doubleForwardSlashes s = s"
proof (rule rdfs_id)
  assume "CHR ''/'' \<notin> set s"
  then show "\<not> sublist ''//'' s" using set_mono_sublist [of "''//''" s] by auto
qed

section \<open>Properties of the returned path\<close>

text \<open>
  Claim C8. The path that \<open>derivePath\<close> returns is the path built by the loop with every
  run of two or more consecutive slashes collapsed into a single slash: it equals
  \<open>collapseSlashRuns\<close> of that path, and it contains no two consecutive slashes. This holds
  whatever the template and the record are, so also when a segment's value is the empty
  string or begins or ends with a slash. The final pass itself maps a run of one or more
  slashes between two texts that do not touch it with a slash to exactly one slash, and
  leaves a text without slashes as it is.
\<close>

theorem derivePath_collapses_slash_runs:
  "fst (derivePath e path node reporter)
     = collapseSlashRuns (fst (foldl (forEachSlugPart e node) (removeFileExtension e path, reporter)
         (extractAllCollectionSegments e path)))
   \<and> \<not> sublist ''//'' (fst (derivePath e path node reporter))
   \<and> ((a = [] \<or> last a \<noteq> CHR ''/'') \<and> \<not> prefix ''/'' b \<longrightarrow>
        replace_doubleForwardSlashes (a @ replicate (Suc n) (CHR ''/'') @ b)
          = replace_doubleForwardSlashes a @ ''/'' @ replace_doubleForwardSlashes b)
   \<and> (CHR ''/'' \<notin> set s \<longrightarrow> replace_doubleForwardSlashes s = s)"
proof -
  have 1: "fst (derivePath e path node reporter)
     = collapseSlashRuns (fst (foldl (forEachSlugPart e node) (removeFileExtension e path, reporter)
         (extractAllCollectionSegments e path)))"
    by (simp add: derivePath_def Let_def rdfs_eq_collapseSlashRuns)
  have 2: "\<not> sublist ''//'' (fst (derivePath e path node reporter))"
    by (simp add: derivePath_def Let_def rdfs_no_double)
  from 1 2 show ?thesis
    using rdfs_run_between [of a b n] rdfs_no_slash [of s] by blast
qed

text \<open>
  The two cases the spec names: a value with slashes at both ends (the loop builds
  \<open>p//a//q\<close>, the result is \<open>p/a/q\<close>) and an empty value (\<open>p/q\<close>).
\<close>

theorem derivePath_collapses_slash_runs_witness:
  "fst (foldl (forEachSlugPart model_env [(''x'', JStr ''/a/'')])
        (removeFileExtension model_env ''p/{M.x}/q.js'', [])
        (extractAllCollectionSegments model_env ''p/{M.x}/q.js'')) = ''p//a//q''
   \<and> fst (derivePath model_env ''p/{M.x}/q.js'' [(''x'', JStr ''/a/'')] []) = ''p/a/q''
   \<and> fst (derivePath model_env ''p/{M.x}/q.js'' [(''x'', JStr '''')] []) = ''p/q''
   \<and> replace_doubleForwardSlashes (''p'' @ replicate (Suc 2) (CHR ''/'') @ ''q'') = ''p/q''
   \<and> replace_doubleForwardSlashes ''pq'' = ''pq''"
proof -
  have p: "fst (foldl (forEachSlugPart model_env [(''x'', JStr ''/a/'')])
        (removeFileExtension model_env ''p/{M.x}/q.js'', [])
        (extractAllCollectionSegments model_env ''p/{M.x}/q.js'')) = ''p//a//q''"
    by code_simp
  have c: "collapseSlashRuns ''p//a//q'' = ''p/a/q''" by code_simp
  have e: "fst (derivePath model_env ''p/{M.x}/q.js'' [(''x'', JStr '''')] []) = ''p/q''"
    by code_simp
  have h1: "(''p'' = [] \<or> last ''p'' \<noteq> CHR ''/'') \<and> \<not> prefix ''/'' ''q''" by simp
  have h2: "CHR ''/'' \<notin> set ''pq''" by simp
  have r: "replace_doubleForwardSlashes ''p'' = ''p''" "replace_doubleForwardSlashes ''q'' = ''q''"
    by simp_all
  from derivePath_collapses_slash_runs [of model_env "''p/{M.x}/q.js''" "[(''x'', JStr ''/a/'')]" "[]"
      "''p''" "''q''" 2 "''pq''"] p c e h1 h2 r
  show ?thesis by simp
qed

text \<open>
  Claim C9. \<open>derivePath\<close> is deterministic: the returned path is a function of the template
  and the record alone, whatever calls the reporter has received before, and so are the
  calls that one invocation adds to the reporter.
\<close>

theorem derivePath_deterministic:
  "derivePath e path node reporter
   = (fst (derivePath e path node []), reporter @ snd (derivePath e path node []))"
  by (simp add: derivePath_def Let_def fst_foldl_forEachSlugPart snd_foldl_forEachSlugPart)

text \<open>
  Claim C3, as amended. For a template with no bracketed segment, \<open>derivePath\<close> returns the
  template with its extension removed and with every run of slashes collapsed to one slash,
  whatever the record holds, and makes no reporter call. When the extension-stripped
  template has no two consecutive slashes it is returned unchanged.
\<close>

theorem derivePath_static_template:
  assumes "extractAllCollectionSegments e path = []"
  shows "derivePath e path node reporter
      = (replace_doubleForwardSlashes (removeFileExtension e path), reporter)
    \<and> (\<not> sublist ''//'' (removeFileExtension e path) \<longrightarrow>
         fst (derivePath e path node reporter) = removeFileExtension e path)"
  using assms by (simp add: derivePath_no_slugParts rdfs_id)

text \<open>The splat template of the spec, which has no segment in braces.\<close>

theorem derivePath_static_template_witness:
  "derivePath model_env ''image/[...].js'' [(''id'', JStr ''1'')] []
     = (''image/[...]'', [])
   \<and> removeFileExtension model_env ''image/[...].js'' = ''image/[...]''"
proof -
  have h: "extractAllCollectionSegments model_env ''image/[...].js'' = []" by code_simp
  have r: "removeFileExtension model_env ''image/[...].js'' = ''image/[...]''" by code_simp
  have n: "\<not> sublist ''//'' (removeFileExtension model_env ''image/[...].js'')" by code_simp
  from derivePath_static_template [OF h, of "[(''id'', JStr ''1'')]" "[]"] r n
  show ?thesis by (simp add: prod_eq_iff)
qed

text \<open>
  The claim as first stated (the stripped template is returned otherwise unchanged) fails
  on a template with a double slash: step 4 collapses it.
\<close>

theorem derivePath_static_template_counterexample:
  "extractAllCollectionSegments model_env ''a//b.js'' = []
   \<and> removeFileExtension model_env ''a//b.js'' = ''a//b''
   \<and> fst (derivePath model_env ''a//b.js'' [] []) = ''a/b''
   \<and> fst (derivePath model_env ''a//b.js'' [] []) \<noteq> removeFileExtension model_env ''a//b.js''"
  by code_simp

text \<open>
  Claim C4. \<open>safeSlugify\<close> stringifies the value (a number becomes its decimal text),
  splits the text on \<open>/\<close>, slugifies each piece on its own and joins the results with
  \<open>/\<close>. A slug holds no slash, so the pieces of the result are exactly the slugs of the
  pieces of the input, one for one: their number is preserved.
\<close>

theorem safeSlugify_pieces:
  assumes "\<forall>s. CHR ''/'' \<notin> set (slugify e s)"
  shows "safeSlugify e v = js_join ''/'' (map (slugify e) (js_split CHR ''/'' (js_String v)))
    \<and> js_split CHR ''/'' (safeSlugify e v) = map (slugify e) (js_split CHR ''/'' (js_String v))
    \<and> length (js_split CHR ''/'' (safeSlugify e v)) = length (js_split CHR ''/'' (js_String v))"
proof -
  have def: "safeSlugify e v = js_join ''/'' (map (slugify e) (js_split CHR ''/'' (js_String v)))"
    by (simp add: safeSlugify_def Let_def)
  have ne: "map (slugify e) (js_split CHR ''/'' (js_String v)) \<noteq> []"
    by (simp add: js_split_not_Nil)
  from assms have "\<forall>p \<in> set (map (slugify e) (js_split CHR ''/'' (js_String v))). CHR ''/'' \<notin> set p"
    by auto
  with ne have "js_split CHR ''/'' (js_join ''/'' (map (slugify e) (js_split CHR ''/'' (js_String v))))
      = map (slugify e) (js_split CHR ''/'' (js_String v))"
    by (rule js_split_join)
  with def show ?thesis by simp
qed

text \<open>
  The example of the spec: the value \<open>a/b\<close> gives two pieces joined by one slash.
\<close>

theorem safeSlugify_pieces_witness:
  "js_split CHR ''/'' (safeSlugify model_env (JStr ''a/b'')) = [''a'', ''b'']
   \<and> safeSlugify model_env (JStr ''a/b'') = ''a/b''
   \<and> safeSlugify model_env (JStr ''Foo Bar/Baz'') = ''foo-bar/baz''
   \<and> safeSlugify model_env (JNum 42) = ''42''"
proof -
  have h: "\<forall>s. CHR ''/'' \<notin> set (slugify model_env s)"
    by (simp add: slugify_model_no_slash)
  have 1: "map (slugify model_env) (js_split CHR ''/'' (js_String (JStr ''a/b''))) = [''a'', ''b'']"
    by code_simp
  have 2: "safeSlugify model_env (JStr ''Foo Bar/Baz'') = ''foo-bar/baz''" by code_simp
  have 3: "safeSlugify model_env (JNum 42) = ''42''" by code_simp
  from safeSlugify_pieces [OF h, of "JStr ''a/b''"] 1 2 3 show ?thesis by simp
qed

section \<open>Unresolved segments\<close>

text \<open>
  Claim C2, as amended. The calls that \<open>derivePath\<close> adds to the reporter are, segment by
  segment in template order, for each segment whose value is \<open>undefined\<close>: one
  \<open>reporter.error\<close> call naming the raw segment text and the normalized field path,
  followed by one \<open>reporter.log\<close> call with the serialized record; a resolved segment adds
  nothing. The loop goes on to the later segments. A segment for which both lookups are
  \<open>undefined\<close> has the value \<open>undefined\<close>. Nothing but these calls marks the failure:
  the function returns a path string.
\<close>

theorem derivePath_reporter_calls:
  "snd (derivePath e path node reporter)
     = reporter @ concat (map (\<lambda>slugPart.
         if slugPartValue e node slugPart = JUndefined
         then [ReporterError (errorMessage slugPart (slugPartKey e slugPart)),
               ReporterLog (JSON_stringify (JObj node))]
         else []) (extractAllCollectionSegments e path))
   \<and> (get e (js_prop node ''nodes'') (''[0]'' @ slugPartKey e s) = JUndefined
        \<and> get e (JObj node) (slugPartKey e s) = JUndefined
      \<longrightarrow> slugPartValue e node s = JUndefined)"
  by (simp add: derivePath_def Let_def snd_foldl_forEachSlugPart slugPartValue_both_undefined)

text \<open>
  Two segments, the first unresolved: two calls for it, and the second segment is still
  substituted.
\<close>

theorem derivePath_reporter_calls_witness:
  "snd (derivePath model_env ''p/{M.x}/{M.y}.js'' [(''y'', JStr ''Hi'')] [])
     = [ReporterError ''PageCreator: Could not find value in the following node for key {M.x} (transformed to x)'',
        ReporterLog (JSON_stringify (JObj [(''y'', JStr ''Hi'')]))]
   \<and> fst (derivePath model_env ''p/{M.x}/{M.y}.js'' [(''y'', JStr ''Hi'')] []) = ''p/{M.x}/hi''"
proof -
  have segs: "extractAllCollectionSegments model_env ''p/{M.x}/{M.y}.js'' = [''{M.x}'', ''{M.y}'']"
    by code_simp
  have k: "slugPartKey model_env ''{M.x}'' = ''x''" by code_simp
  have a: "get model_env (js_prop [(''y'', JStr ''Hi'')] ''nodes'') (''[0]'' @ slugPartKey model_env ''{M.x}'') = JUndefined"
    by code_simp
  have b: "get model_env (JObj [(''y'', JStr ''Hi'')]) (slugPartKey model_env ''{M.x}'') = JUndefined"
    by code_simp
  have y: "slugPartValue model_env [(''y'', JStr ''Hi'')] ''{M.y}'' = JStr ''Hi''" by code_simp
  have p: "fst (derivePath model_env ''p/{M.x}/{M.y}.js'' [(''y'', JStr ''Hi'')] []) = ''p/{M.x}/hi''"
    by code_simp
  from derivePath_reporter_calls [of model_env "''p/{M.x}/{M.y}.js''" "[(''y'', JStr ''Hi'')]" "[]" "''{M.x}''"]
    segs k a b y p
  show ?thesis by (simp add: errorMessage_def)
qed

text \<open>
  The claim as first stated (exactly one reporter call for an unresolved segment) fails:
  one unresolved segment makes two calls.
\<close>

theorem derivePath_reporter_calls_counterexample:
  "extractAllCollectionSegments model_env ''p/{M.x}.js'' = [''{M.x}'']
   \<and> snd (derivePath model_env ''p/{M.x}.js'' [] [])
     = [ReporterError ''PageCreator: Could not find value in the following node for key {M.x} (transformed to x)'',
        ReporterLog ''{}'']
   \<and> length (snd (derivePath model_env ''p/{M.x}.js'' [] [])) \<noteq> 1"
  by code_simp

text \<open>
  Claim C10. When a segment's field path yields no defined value under either lookup,
  \<open>derivePath\<close> still returns a path (the embedding has no error branch, as the source has
  no throw), the loop body leaves the path untouched for that segment, and the segment's
  raw bracketed text is still in the returned path, subject only to the final collapse of
  slashes. The segments are those of a well-formed template: brace-delimited, not nested,
  and lying in the part of the template that remains when the extension is removed.
\<close>

theorem derivePath_unresolved_slugPart_kept:
  assumes "slugPart \<in> set (extractAllCollectionSegments e path)"
    and "get e (js_prop node ''nodes'') (''[0]'' @ slugPartKey e slugPart) = JUndefined"
    and "get e (JObj node) (slugPartKey e slugPart) = JUndefined"
    and "\<forall>t \<in> set (extractAllCollectionSegments e path). wellFormedSegment t"
    and "sublist slugPart (removeFileExtension e path)"
  shows "fst (forEachSlugPart e node st slugPart) = fst st
    \<and> sublist (replace_doubleForwardSlashes slugPart) (fst (derivePath e path node reporter))"
proof -
  from assms(2,3) have undef: "slugPartValue e node slugPart = JUndefined"
    by (rule slugPartValue_both_undefined)
  from assms(1,4) have wf: "wellFormedSegment slugPart" by blast
  from wf undef assms(4,5)
  have "sublist slugPart (fst (foldl (forEachSlugPart e node) (removeFileExtension e path, reporter)
          (extractAllCollectionSegments e path)))"
    unfolding fst_foldl_forEachSlugPart fst_conv by (rule foldl_keeps_segment)
  with wf have "sublist (replace_doubleForwardSlashes slugPart) (fst (derivePath e path node reporter))"
    by (simp add: derivePath_def Let_def rdfs_keeps_segment)
  moreover from undef have "fst (forEachSlugPart e node st slugPart) = fst st"
    by (simp add: forEachSlugPart_def)
  ultimately show ?thesis by simp
qed

text \<open>
  Two segments, the first unresolved: its text is still in the result, and the second
  segment is substituted.
\<close>

theorem derivePath_unresolved_slugPart_kept_witness:
  "fst (forEachSlugPart model_env [(''y'', JStr ''Hi There'')] (''p/{M.x}/{M.y}'', []) ''{M.x}'')
     = ''p/{M.x}/{M.y}''
   \<and> sublist ''{M.x}'' (fst (derivePath model_env ''p/{M.x}/{M.y}.js'' [(''y'', JStr ''Hi There'')] []))
   \<and> fst (derivePath model_env ''p/{M.x}/{M.y}.js'' [(''y'', JStr ''Hi There'')] []) = ''p/{M.x}/hi-there''"
proof -
  have h1: "''{M.x}'' \<in> set (extractAllCollectionSegments model_env ''p/{M.x}/{M.y}.js'')"
    by code_simp
  have h2: "get model_env (js_prop [(''y'', JStr ''Hi There'')] ''nodes'')
      (''[0]'' @ slugPartKey model_env ''{M.x}'') = JUndefined"
    by code_simp
  have h3: "get model_env (JObj [(''y'', JStr ''Hi There'')]) (slugPartKey model_env ''{M.x}'') = JUndefined"
    by code_simp
  have h4: "\<forall>t \<in> set (extractAllCollectionSegments model_env ''p/{M.x}/{M.y}.js''). wellFormedSegment t"
    by code_simp
  have h5: "sublist ''{M.x}'' (removeFileExtension model_env ''p/{M.x}/{M.y}.js'')"
    by code_simp
  have r: "replace_doubleForwardSlashes ''{M.x}'' = ''{M.x}''" by code_simp
  have v: "fst (derivePath model_env ''p/{M.x}/{M.y}.js'' [(''y'', JStr ''Hi There'')] []) = ''p/{M.x}/hi-there''"
    by code_simp
  from derivePath_unresolved_slugPart_kept [OF h1 h2 h3 h4 h5,
      of "(''p/{M.x}/{M.y}'', [])" "[]"] r v
  show ?thesis by simp
qed

section \<open>The order of the two lookups\<close>

text \<open>
  Claim C1. The claim says that a defined value found by the aggregate lookup is used even
  when it is falsy. The code joins the two lookups with \<open>||\<close>: for the record
  \<open>{nodes: [{a: 0}]}\<close> the aggregate lookup yields \<open>0\<close>, yet the segment is reported as
  not found and stays in the path, while the record \<open>{a: 0}\<close> resolves to \<open>p/0\<close>; for
  \<open>{nodes: [{a: ""}], a: "z"}\<close> the direct value wins over the defined aggregate value.
\<close>

theorem derivePath_falsy_aggregate_value:
  "get model_env (js_prop [(''nodes'', JArr [JObj [(''a'', JNum 0)]])] ''nodes'') (''[0]'' @ ''a'') = JNum 0
   \<and> slugPartKey model_env ''{M.a}'' = ''a''
   \<and> fst (derivePath model_env ''p/{M.a}.js'' [(''nodes'', JArr [JObj [(''a'', JNum 0)]])] []) = ''p/{M.a}''
   \<and> length (snd (derivePath model_env ''p/{M.a}.js'' [(''nodes'', JArr [JObj [(''a'', JNum 0)]])] [])) = 2
   \<and> fst (derivePath model_env ''p/{M.a}.js'' [(''a'', JNum 0)] []) = ''p/0''
   \<and> fst (derivePath model_env ''p/{M.a}.js''
        [(''nodes'', JArr [JObj [(''a'', JStr '''')]]), (''a'', JStr ''z'')] []) = ''p/z''"
  by code_simp

section \<open>The aggregate-wrapped record\<close>

text \<open>
  Claim C5, as amended. A segment with the field path \<open>a.b.c\<close> has the value \<open>x\<close> on the
  record \<open>{a: {b: {c: "x"}}}\<close> (by the direct lookup) and on the aggregate-wrapped record
  \<open>{nodes: [{a: {b: {c: "x"}}}]}\<close> (by the aggregate lookup), and the two records give the
  same resolved path for every template in which every other segment looks up the same
  value on both records (or fails on both).
\<close>

theorem derivePath_aggregate_same:
  assumes "get e = lodash_get"
    and "\<forall>s \<in> set (extractAllCollectionSegments e path).
           slugPartKey e s = ''a.b.c''
           \<or> slugPartValue e [(''a'', JObj [(''b'', JObj [(''c'', JStr ''x'')])])] s
             = slugPartValue e [(''nodes'', JArr [JObj [(''a'', JObj [(''b'', JObj [(''c'', JStr ''x'')])])]])] s"
  shows "fst (derivePath e path [(''a'', JObj [(''b'', JObj [(''c'', JStr ''x'')])])] reporter)
      = fst (derivePath e path
          [(''nodes'', JArr [JObj [(''a'', JObj [(''b'', JObj [(''c'', JStr ''x'')])])]])] reporter)
    \<and> (slugPartKey e slugPart = ''a.b.c'' \<longrightarrow>
         slugPartValue e [(''a'', JObj [(''b'', JObj [(''c'', JStr ''x'')])])] slugPart = JStr ''x''
         \<and> slugPartValue e [(''nodes'', JArr [JObj [(''a'', JObj [(''b'', JObj [(''c'', JStr ''x'')])])]])]
             slugPart = JStr ''x'')"
proof -
  let ?r1 = "[(''a'', JObj [(''b'', JObj [(''c'', JStr ''x'')])])]"
  let ?r2 = "[(''nodes'', JArr [JObj [(''a'', JObj [(''b'', JObj [(''c'', JStr ''x'')])])]])]"
  have d: "lodash_get (JObj ?r1) ''a.b.c'' = JStr ''x''" by code_simp
  have u: "lodash_get (js_prop ?r1 ''nodes'') (''[0]'' @ ''a.b.c'') = JUndefined" by code_simp
  have g: "lodash_get (js_prop ?r2 ''nodes'') (''[0]'' @ ''a.b.c'') = JStr ''x''" by code_simp
  have v: "slugPartValue e ?r1 s = JStr ''x'' \<and> slugPartValue e ?r2 s = JStr ''x''"
    if "slugPartKey e s = ''a.b.c''" for s
    using that assms(1) d u g by (simp add: slugPartValue_def js_or_def)
  have same: "slugPartValue e ?r1 s = slugPartValue e ?r2 s"
    if "s \<in> set (extractAllCollectionSegments e path)" for s
    using that assms(2) v by auto
  have "foldl (\<lambda>p s. if slugPartValue e ?r1 s = JUndefined then p
                     else js_replace p s (safeSlugify e (slugPartValue e ?r1 s)))
          p (extractAllCollectionSegments e path)
      = foldl (\<lambda>p s. if slugPartValue e ?r2 s = JUndefined then p
                     else js_replace p s (safeSlugify e (slugPartValue e ?r2 s)))
          p (extractAllCollectionSegments e path)" for p
    by (rule foldl_cong [OF refl refl]) (simp add: same)
  then have "fst (derivePath e path ?r1 reporter) = fst (derivePath e path ?r2 reporter)"
    by (simp add: derivePath_def Let_def fst_foldl_forEachSlugPart)
  with v [of slugPart] show ?thesis by blast
qed

text \<open>
  A template with a second segment: \<open>{Field.id}\<close> is unresolved on both records, and the
  paths agree.
\<close>

theorem derivePath_aggregate_same_witness:
  "fst (derivePath model_env ''t/{Field.a__b__c}/{Field.id}.js''
         [(''a'', JObj [(''b'', JObj [(''c'', JStr ''x'')])])] []) = ''t/x/{Field.id}''
   \<and> fst (derivePath model_env ''t/{Field.a__b__c}/{Field.id}.js''
         [(''nodes'', JArr [JObj [(''a'', JObj [(''b'', JObj [(''c'', JStr ''x'')])])]])] [])
       = ''t/x/{Field.id}''
   \<and> slugPartValue model_env [(''a'', JObj [(''b'', JObj [(''c'', JStr ''x'')])])]
        ''{Field.a__b__c}'' = JStr ''x''
   \<and> slugPartValue model_env
        [(''nodes'', JArr [JObj [(''a'', JObj [(''b'', JObj [(''c'', JStr ''x'')])])]])]
        ''{Field.a__b__c}'' = JStr ''x''"
proof -
  have h1: "get model_env = lodash_get" by (simp add: model_env_def)
  have h2: "\<forall>s \<in> set (extractAllCollectionSegments model_env ''t/{Field.a__b__c}/{Field.id}.js'').
      slugPartKey model_env s = ''a.b.c''
      \<or> slugPartValue model_env [(''a'', JObj [(''b'', JObj [(''c'', JStr ''x'')])])] s
        = slugPartValue model_env
            [(''nodes'', JArr [JObj [(''a'', JObj [(''b'', JObj [(''c'', JStr ''x'')])])]])] s"
    by code_simp
  have k: "slugPartKey model_env ''{Field.a__b__c}'' = ''a.b.c''" by code_simp
  have v: "fst (derivePath model_env ''t/{Field.a__b__c}/{Field.id}.js''
         [(''a'', JObj [(''b'', JObj [(''c'', JStr ''x'')])])] []) = ''t/x/{Field.id}''"
    by code_simp
  from derivePath_aggregate_same [OF h1 h2, of "[]" "''{Field.a__b__c}''"] k v
  show ?thesis by simp
qed

text \<open>
  The claim as first stated (every template containing that segment) fails when another
  segment reads a property of the wrapper itself: \<open>nodes\<close> is defined on the wrapped record
  only.
\<close>

theorem derivePath_aggregate_same_counterexample:
  "fst (derivePath model_env ''t/{Field.a__b__c}/{Field.nodes}.js''
        [(''a'', JObj [(''b'', JObj [(''c'', JStr ''x'')])])] []) = ''t/x/{Field.nodes}''
   \<and> fst (derivePath model_env ''t/{Field.a__b__c}/{Field.nodes}.js''
        [(''nodes'', JArr [JObj [(''a'', JObj [(''b'', JObj [(''c'', JStr ''x'')])])]])] [])
      = ''t/x/object-object''"
  by code_simp

section \<open>The documented examples\<close>

text \<open>
  Claim C6. For the template \<open>products/{Product.name}.js\<close> and the record
  \<open>{id: "1", name: "Veggie Burger"}\<close>, \<open>derivePath\<close> returns exactly
  \<open>products/veggie-burger\<close>, and makes no reporter call.
\<close>

theorem derivePath_veggie_burger:
  "derivePath model_env ''products/{Product.name}.js''
     [(''id'', JStr ''1''), (''name'', JStr ''Veggie Burger'')] reporter
   = (''products/veggie-burger'', reporter)"
  by code_simp

text \<open>
  Claim C7. For the template \<open>blog/{MarkdownRemark.parent__(File)__name}.js\<close> and the record
  \<open>{id: "2", parent: {name: "Learning Gatsby"}}\<close>, \<open>derivePath\<close> returns exactly
  \<open>blog/learning-gatsby\<close>; the union marker \<open>(File)\<close> is not part of the field path used
  for the lookup, which is \<open>parent.name\<close>.
\<close>

theorem derivePath_learning_gatsby:
  "derivePath model_env ''blog/{MarkdownRemark.parent__(File)__name}.js''
     [(''id'', JStr ''2''), (''parent'', JObj [(''name'', JStr ''Learning Gatsby'')])] reporter
   = (''blog/learning-gatsby'', reporter)
   \<and> slugPartKey model_env ''{MarkdownRemark.parent__(File)__name}'' = ''parent.name''"
  by code_simp

end
